theory Spec2Isabelle
  imports Main "HOL-Library.Word" "HOL-Library.Char_ord" "HOL-Library.List_Lexorder"
    "HOL-Library.Multiset"
begin

unbundle bit_operations_syntax

section \<open>Bytes, text and hexadecimal rendering\<close>

text \<open>
  Go's \<^verbatim>\<open>[]byte\<close> is a list of 8-bit words; Go's \<^verbatim>\<open>string\<close> holding text is a
  \<^typ>\<open>string\<close>, whose characters are bytes as well. Both are ordered byte-wise and
  lexicographically (a proper prefix is smaller), which is the order of
  \<^verbatim>\<open>strings.Compare\<close> and of \<^verbatim>\<open>sort.Strings\<close>.
\<close>

type_synonym byte = "8 word"
type_synonym bytes = "8 word list"

text \<open>\<^verbatim>\<open>[]byte(s)\<close> and \<^verbatim>\<open>string(b)\<close>: the same bytes under the other type.\<close>

definition bytesOf :: "string \<Rightarrow> bytes" where
  "bytesOf s = map of_char s"

definition hexdigits :: string where
  "hexdigits = ''0123456789abcdef''"

text \<open>\<^verbatim>\<open>fmt.Sprintf("%x", b)\<close> on a byte slice: two lowercase digits per byte, high nibble first.\<close>

definition hexByte :: "byte \<Rightarrow> string" where
  "hexByte b = [hexdigits ! unat (drop_bit 4 b), hexdigits ! unat (b AND 0x0F)]"

definition hexOf :: "bytes \<Rightarrow> string" where
  "hexOf bs = concat (map hexByte bs)"

definition isLowerHex :: "char \<Rightarrow> bool" where
  "isLowerHex c = (c \<in> set ''0123456789abcdef'')"

section \<open>The hash primitive: \<^verbatim>\<open>crypto/sha256\<close>\<close>

text \<open>
  \<^verbatim>\<open>sha256.Sum256\<close> belongs to Go's standard library. It is modelled here as the function of
  FIPS 180-4: padding to a multiple of 64 bytes, a message schedule of 64 words per block and
  64 rounds of the compression function on eight 32-bit words, all arithmetic modulo \<open>2^32\<close>.
  The result type of \<^verbatim>\<open>Sum256\<close> is \<^verbatim>\<open>[32]byte\<close>.
\<close>

definition rotr :: "nat \<Rightarrow> 32 word \<Rightarrow> 32 word" where
  "rotr n w = word_rotr n w"

definition Ch :: "32 word \<Rightarrow> 32 word \<Rightarrow> 32 word \<Rightarrow> 32 word" where
  "Ch x y z = (x AND y) XOR (NOT x AND z)"

definition Maj :: "32 word \<Rightarrow> 32 word \<Rightarrow> 32 word \<Rightarrow> 32 word" where
  "Maj x y z = (x AND y) XOR (x AND z) XOR (y AND z)"

definition bsig0 :: "32 word \<Rightarrow> 32 word" where
  "bsig0 x = rotr 2 x XOR rotr 13 x XOR rotr 22 x"

definition bsig1 :: "32 word \<Rightarrow> 32 word" where
  "bsig1 x = rotr 6 x XOR rotr 11 x XOR rotr 25 x"

definition ssig0 :: "32 word \<Rightarrow> 32 word" where
  "ssig0 x = rotr 7 x XOR rotr 18 x XOR drop_bit 3 x"

definition ssig1 :: "32 word \<Rightarrow> 32 word" where
  "ssig1 x = rotr 17 x XOR rotr 19 x XOR drop_bit 10 x"

definition K256 :: "32 word list" where
  "K256 = [
    0x428A2F98, 0x71374491, 0xB5C0FBCF, 0xE9B5DBA5, 0x3956C25B, 0x59F111F1, 0x923F82A4, 0xAB1C5ED5,
    0xD807AA98, 0x12835B01, 0x243185BE, 0x550C7DC3, 0x72BE5D74, 0x80DEB1FE, 0x9BDC06A7, 0xC19BF174,
    0xE49B69C1, 0xEFBE4786, 0x0FC19DC6, 0x240CA1CC, 0x2DE92C6F, 0x4A7484AA, 0x5CB0A9DC, 0x76F988DA,
    0x983E5152, 0xA831C66D, 0xB00327C8, 0xBF597FC7, 0xC6E00BF3, 0xD5A79147, 0x06CA6351, 0x14292967,
    0x27B70A85, 0x2E1B2138, 0x4D2C6DFC, 0x53380D13, 0x650A7354, 0x766A0ABB, 0x81C2C92E, 0x92722C85,
    0xA2BFE8A1, 0xA81A664B, 0xC24B8B70, 0xC76C51A3, 0xD192E819, 0xD6990624, 0xF40E3585, 0x106AA070,
    0x19A4C116, 0x1E376C08, 0x2748774C, 0x34B0BCB5, 0x391C0CB3, 0x4ED8AA4A, 0x5B9CCA4F, 0x682E6FF3,
    0x748F82EE, 0x78A5636F, 0x84C87814, 0x8CC70208, 0x90BEFFFA, 0xA4506CEB, 0xBEF9A3F7, 0xC67178F2]"

type_synonym sha_state =
  "32 word \<times> 32 word \<times> 32 word \<times> 32 word \<times> 32 word \<times> 32 word \<times> 32 word \<times> 32 word"

definition sha_init :: sha_state where
  "sha_init = (0x6A09E667, 0xBB67AE85, 0x3C6EF372, 0xA54FF53A,
               0x510E527F, 0x9B05688C, 0x1F83D9AB, 0x5BE0CD19)"

text \<open>Big-endian reading and writing of words.\<close>

definition be32 :: "bytes \<Rightarrow> 32 word" where
  "be32 bs = push_bit 24 (ucast (bs ! 0)) OR push_bit 16 (ucast (bs ! 1))
             OR push_bit 8 (ucast (bs ! 2)) OR ucast (bs ! 3)"

definition put32 :: "32 word \<Rightarrow> bytes" where
  "put32 w = [ucast (drop_bit 24 w), ucast (drop_bit 16 w), ucast (drop_bit 8 w), ucast w]"

definition put64 :: "64 word \<Rightarrow> bytes" where
  "put64 w = map (\<lambda>i. ucast (drop_bit (8 * (7 - i)) w)) [0..<8]"

text \<open>
  Padding: one byte \<open>0x80\<close>, zero bytes up to 56 modulo 64, then the length of the message in
  bits as a 64-bit big-endian number.
\<close>

definition sha_pad :: "bytes \<Rightarrow> bytes" where
  "sha_pad m = m @ [0x80] @ replicate ((119 - length m mod 64) mod 64) 0
               @ put64 (of_nat (8 * length m))"

fun chunks :: "nat \<Rightarrow> nat \<Rightarrow> 'a list \<Rightarrow> 'a list list" where
  "chunks 0 k xs = []"
| "chunks (Suc n) k xs = take k xs # chunks n k (drop k xs)"

fun schedule :: "nat \<Rightarrow> 32 word list \<Rightarrow> 32 word list" where
  "schedule 0 w = w"
| "schedule (Suc n) w =
     schedule n (w @ [ssig1 (w ! (length w - 2)) + w ! (length w - 7)
                      + ssig0 (w ! (length w - 15)) + w ! (length w - 16)])"

definition sha_round :: "32 word \<times> 32 word \<Rightarrow> sha_state \<Rightarrow> sha_state" where
  "sha_round kw s = (case kw of (k, w) \<Rightarrow> case s of (a, b, c, d, e, f, g, h) \<Rightarrow>
     (let t1 = h + bsig1 e + Ch e f g + k + w;
          t2 = bsig0 a + Maj a b c
      in (t1 + t2, a, b, c, d + t1, e, f, g)))"

definition sha_add :: "sha_state \<Rightarrow> sha_state \<Rightarrow> sha_state" where
  "sha_add s t = (case s of (a, b, c, d, e, f, g, h) \<Rightarrow>
                  case t of (a', b', c', d', e', f', g', h') \<Rightarrow>
     (a + a', b + b', c + c', d + d', e + e', f + f', g + g', h + h'))"

definition sha_block :: "bytes \<Rightarrow> sha_state \<Rightarrow> sha_state" where
  "sha_block blk s =
     sha_add s (fold sha_round (zip K256 (schedule 48 (map be32 (chunks 16 4 blk)))) s)"

definition sha_out :: "sha_state \<Rightarrow> bytes" where
  "sha_out s = (case s of (a, b, c, d, e, f, g, h) \<Rightarrow>
     put32 a @ put32 b @ put32 c @ put32 d @ put32 e @ put32 f @ put32 g @ put32 h)"

definition Sum256 :: "bytes \<Rightarrow> bytes" where
  "Sum256 m = (let p = sha_pad m
               in sha_out (fold sha_block (chunks (length p div 64) 64 p) sha_init))"

section \<open>Hashing and Merkle aggregation (\<^verbatim>\<open>verify.go\<close>)\<close>

text \<open>\<^verbatim>\<open>sha256Bytes\<close>: the digest as a slice, \<^verbatim>\<open>h[:]\<close>.\<close>

definition sha256Bytes :: "bytes \<Rightarrow> bytes" where
  "sha256Bytes b = Sum256 b"

text \<open>
  The inner loop of \<^verbatim>\<open>merkleRoot\<close>, \<^verbatim>\<open>for i := 0; i < len(level); i += 2\<close>: the digest at
  \<open>i\<close> is paired with the one at \<open>i + 1\<close>, or with itself when there is none, and the parent
  is appended to \<^verbatim>\<open>next\<close>. Every slice that reaches \<^verbatim>\<open>append(left, right...)\<close> in this
  program comes from \<^verbatim>\<open>sha256Bytes\<close> and has no spare capacity, so \<^verbatim>\<open>append\<close> builds a
  fresh slice and is list concatenation.
\<close>

function nextLevel :: "bytes list \<Rightarrow> nat \<Rightarrow> bytes list \<Rightarrow> bytes list" where
  "nextLevel level i next =
     (if i < length level then
        (let left = level ! i;
             right = (if i + 1 < length level then level ! (i + 1) else left);
             parent = sha256Bytes (left @ right)
         in nextLevel level (i + 2) (next @ [parent]))
      else next)"
  by pat_completeness auto
termination
  by (relation "measure (\<lambda>(level, i, next). length level - i)") auto

declare nextLevel.simps [simp del]

lemma length_nextLevel:
  "length (nextLevel level i next) = length next + (length level - i + 1) div 2"
proof (induction level i "next" rule: nextLevel.induct)
  case (1 level i nxt)
  show ?case
  proof (cases "i < length level")
    case True
    have "length (nextLevel level i nxt)
        = length (nextLevel level (i + 2)
            (nxt @ [sha256Bytes (level ! i @
               (if i + 1 < length level then level ! (i + 1) else level ! i))]))"
      using True by (subst nextLevel.simps) (simp add: Let_def)
    also have "\<dots> = length nxt + 1 + (length level - (i + 2) + 1) div 2"
      using True "1.IH" by (simp add: Let_def)
    also have "\<dots> = length nxt + (length level - i + 1) div 2"
      using True by arith
    finally show ?thesis .
  next
    case False
    then show ?thesis by (subst nextLevel.simps) simp
  qed
qed

text \<open>The outer loop, \<^verbatim>\<open>for len(level) > 1\<close>.\<close>

function levels :: "bytes list \<Rightarrow> bytes list" where
  "levels level = (if length level > 1 then levels (nextLevel level 0 []) else level)"
  by pat_completeness auto
termination
  by (relation "measure length") (auto simp: length_nextLevel)

declare levels.simps [simp del]

text \<open>
  The pairing of one level read off the list: adjacent digests from the left, and a last
  digest without a partner paired with itself.
\<close>

fun pairUp :: "bytes list \<Rightarrow> bytes list" where
  "pairUp [] = []"
| "pairUp [l] = [sha256Bytes (l @ l)]"
| "pairUp (l # r # rest) = sha256Bytes (l @ r) # pairUp rest"

text \<open>
  \<^verbatim>\<open>merkleRoot\<close>. The empty input gives \<^verbatim>\<open>make([]byte, 32)\<close>, 32 zero bytes. Otherwise the
  slice is copied and sorted with \<^verbatim>\<open>sort.Slice\<close> under
  \<^verbatim>\<open>strings.Compare(string(cp[i]), string(cp[j])) < 0\<close>, a total order in which equal
  elements are the same bytes, so the sorted slice is the one \<^const>\<open>sort\<close> returns. The
  result is \<^verbatim>\<open>level[0]\<close>; the level is never empty there (\<open>levels_nonempty\<close> below).
\<close>

definition merkleRoot :: "bytes list \<Rightarrow> bytes" where
  "merkleRoot hashes =
     (if length hashes = 0 then replicate 32 0
      else (let cp = sort hashes; level = levels cp in level ! 0))"

text \<open>The final record hash of \<^verbatim>\<open>main\<close> and the text printed for it.\<close>

definition recordHash :: "bytes \<Rightarrow> bytes \<Rightarrow> bytes" where
  "recordHash dataHash attRoot = sha256Bytes (dataHash @ attRoot)"

definition recordHashHex :: "bytes \<Rightarrow> bytes \<Rightarrow> string" where
  "recordHashHex dataHash attRoot = hexOf (recordHash dataHash attRoot)"

section \<open>Decoded JSON values and their encoding by \<^verbatim>\<open>encoding/json\<close>\<close>

text \<open>
  The values \<^verbatim>\<open>canonicalMarshal\<close> switches on, one constructor for each type it can meet:
  \<^item> \<open>VMap\<close>: a \<^verbatim>\<open>map[string]interface{}\<close>, as the list of its entries in the order in which
    \<^verbatim>\<open>range\<close> visits them. Go leaves that order unspecified; the keys of a map are distinct.
  \<^item> \<open>VSlice\<close>: a \<^verbatim>\<open>[]interface{}\<close>; \<open>VString\<close>, \<open>VBool\<close>, \<open>VNil\<close>: a string, a bool, \<^verbatim>\<open>nil\<close>.
  \<^item> \<open>VFloat64\<close>: a \<^verbatim>\<open>float64\<close>. Floating-point formatting is outside this model, so the
    value is carried as the text \<^verbatim>\<open>json.Marshal\<close> prints for it, \<open>None\<close> for NaN and the
    infinities, which \<^verbatim>\<open>json.Marshal\<close> rejects.
  \<^item> \<open>VNumber\<close>: a \<^verbatim>\<open>json.Number\<close>, the literal text of a number. This is what the decoder of
    \<^verbatim>\<open>loadJSONFile\<close> produces for every number, since it is set to \<^verbatim>\<open>UseNumber()\<close>.
  \<^item> \<open>VOther\<close>: a value of any other concrete type, carried as the result of
    \<^verbatim>\<open>json.Marshal\<close> on it, \<open>None\<close> when \<^verbatim>\<open>json.Marshal\<close> fails.
\<close>

datatype error = UnsupportedValue | InvalidNumberLiteral | UnsupportedType

datatype jvalue =
    VMap "(string \<times> jvalue) list"
  | VSlice "jvalue list"
  | VString string
  | VFloat64 "string option"
  | VBool bool
  | VNil
  | VNumber string
  | VOther "string option"

text \<open>\<^verbatim>\<open>x[k]\<close> on a map: the value stored under \<open>k\<close>, the nil interface when there is none.\<close>

definition lookup :: "(string \<times> jvalue) list \<Rightarrow> string \<Rightarrow> jvalue" where
  "lookup x k = (case map_of x k of Some v \<Rightarrow> v | None \<Rightarrow> VNil)"

text \<open>
  \<^verbatim>\<open>json.Marshal\<close> of a \<^verbatim>\<open>json.Number\<close>: the empty literal is printed as \<open>0\<close>, a literal
  that is not a JSON number is an error, any other literal is printed as it is.
  \<open>isValidNumber\<close> is the grammar check of \<^verbatim>\<open>encoding/json\<close>: an optional minus sign, \<open>0\<close>
  or a digit from 1 to 9 followed by digits, an optional fraction of a dot and at least one
  digit, an optional exponent of \<open>e\<close> or \<open>E\<close>, an optional sign and at least one digit.
\<close>

definition isDigit :: "char \<Rightarrow> bool" where
  "isDigit c = (CHR ''0'' \<le> c \<and> c \<le> CHR ''9'')"

definition skipDigits :: "string \<Rightarrow> string" where
  "skipDigits s = dropWhile isDigit s"

definition isValidNumber :: "string \<Rightarrow> bool" where
  "isValidNumber s0 =
    (if s0 = [] then False
     else
       (let s1 = (if hd s0 = CHR ''-'' then tl s0 else s0) in
        if s1 = [] then False
        else if \<not> isDigit (hd s1) then False
        else
          (let s2 = (if hd s1 = CHR ''0'' then tl s1 else skipDigits (tl s1));
               s3 = (if length s2 \<ge> 2 \<and> s2 ! 0 = CHR ''.'' \<and> isDigit (s2 ! 1)
                     then skipDigits (drop 2 s2) else s2)
           in if length s3 \<ge> 2 \<and> (s3 ! 0 = CHR ''e'' \<or> s3 ! 0 = CHR ''E'') then
                (let s4 = tl s3 in
                 if s4 ! 0 = CHR ''+'' \<or> s4 ! 0 = CHR ''-'' then
                   (let s5 = tl s4 in if s5 = [] then False else skipDigits s5 = [])
                 else skipDigits s4 = [])
              else s3 = [])))"

definition marshalNumber :: "string \<Rightarrow> error + string" where
  "marshalNumber n =
     (let numStr = (if n = [] then ''0'' else n)
      in if \<not> isValidNumber numStr then Inl InvalidNumberLiteral else Inr numStr)"

text \<open>\<^verbatim>\<open>json.Marshal\<close> of a value carried as its own encoding.\<close>

definition marshalOpaque :: "error \<Rightarrow> string option \<Rightarrow> error + string" where
  "marshalOpaque e r = (case r of None \<Rightarrow> Inl e | Some s \<Rightarrow> Inr s)"

text \<open>
  \<^verbatim>\<open>json.Marshal\<close> of a string (Go 1.22 and later, HTML escaping on): between two double
  quotes, the bytes of the string, where a double quote and a backslash get a backslash
  before them; backspace, form feed, newline, carriage return and tab become a backslash
  and the letter \<open>b\<close>, \<open>f\<close>, \<open>n\<close>, \<open>r\<close> or \<open>t\<close>; the other control characters and \<open><\<close>,
  \<open>>\<close>, \<open>&\<close> become a backslash, \<open>u00\<close> and two hexadecimal digits; a byte that starts no
  valid UTF-8 sequence becomes a backslash and \<open>ufffd\<close>; the line and paragraph separators
  U+2028 and U+2029 become a backslash and \<open>u2028\<close> or \<open>u2029\<close>.
\<close>

definition htmlSafe :: "char \<Rightarrow> bool" where
  "htmlSafe b = (CHR 0x20 \<le> b \<and> b < CHR 0x80 \<and> b \<noteq> CHR 0x22 \<and> b \<noteq> CHR 0x5C
                 \<and> b \<noteq> CHR ''<'' \<and> b \<noteq> CHR ''>'' \<and> b \<noteq> CHR ''&'')"

definition escapeByte :: "char \<Rightarrow> string" where
  "escapeByte b =
     (if b = CHR 0x5C \<or> b = CHR 0x22 then [CHR 0x5C, b]
      else if b = CHR 0x08 then [CHR 0x5C, CHR ''b'']
      else if b = CHR 0x0C then [CHR 0x5C, CHR ''f'']
      else if b = CHR 0x0A then [CHR 0x5C, CHR ''n'']
      else if b = CHR 0x0D then [CHR 0x5C, CHR ''r'']
      else if b = CHR 0x09 then [CHR 0x5C, CHR ''t'']
      else [CHR 0x5C, CHR ''u'', CHR ''0'', CHR ''0'',
            hexdigits ! (of_char b div 16), hexdigits ! (of_char b mod 16)])"

definition inRange :: "char \<Rightarrow> char \<Rightarrow> char \<Rightarrow> bool" where
  "inRange lo hi c = (lo \<le> c \<and> c \<le> hi)"

text \<open>
  The number of bytes \<^verbatim>\<open>utf8.DecodeRuneInString\<close> consumes at the head of a string that
  starts with a byte of \<open>0x80\<close> or more: the length of a well-formed sequence, and 1 for a
  byte that starts none.
\<close>

definition runeSize :: "string \<Rightarrow> nat" where
  "runeSize s =
     (let b0 = s ! 0;
          sz = (if inRange (CHR 0xC2) (CHR 0xDF) b0 then 2
                else if inRange (CHR 0xE0) (CHR 0xEF) b0 then 3
                else if inRange (CHR 0xF0) (CHR 0xF4) b0 then 4 else 0);
          lo = (if b0 = CHR 0xE0 then CHR 0xA0 else if b0 = CHR 0xF0 then CHR 0x90 else CHR 0x80);
          hi = (if b0 = CHR 0xED then CHR 0x9F else if b0 = CHR 0xF4 then CHR 0x8F else CHR 0xBF)
      in if sz = 0 \<or> length s < sz then 1
         else if \<not> inRange lo hi (s ! 1) then 1
         else if sz = 2 then 2
         else if \<not> inRange (CHR 0x80) (CHR 0xBF) (s ! 2) then 1
         else if sz = 3 then 3
         else if \<not> inRange (CHR 0x80) (CHR 0xBF) (s ! 3) then 1
         else 4)"

lemma runeSize_pos: "0 < runeSize s"
  unfolding runeSize_def Let_def
  by (simp only: if_distrib [of "\<lambda>n. 0 < n"] if_cancel zero_less_numeral zero_less_one
      simp_thms)

function stringBody :: "string \<Rightarrow> string" where
  "stringBody src =
     (if src = [] then []
      else if hd src < CHR 0x80 then
        (if htmlSafe (hd src) then [hd src] else escapeByte (hd src)) @ stringBody (tl src)
      else
        (let size = runeSize src in
         if size = 1 then [CHR 0x5C, CHR ''u'', CHR ''f'', CHR ''f'', CHR ''f'', CHR ''d'']
                          @ stringBody (drop 1 src)
         else if take 3 src = [CHR 0xE2, CHR 0x80, CHR 0xA8] then
           [CHR 0x5C, CHR ''u'', CHR ''2'', CHR ''0'', CHR ''2'', CHR ''8'']
           @ stringBody (drop size src)
         else if take 3 src = [CHR 0xE2, CHR 0x80, CHR 0xA9] then
           [CHR 0x5C, CHR ''u'', CHR ''2'', CHR ''0'', CHR ''2'', CHR ''9'']
           @ stringBody (drop size src)
         else take size src @ stringBody (drop size src)))"
  by pat_completeness auto
termination
proof (relation "measure length")
  show "wf (measure length)" by simp
next
  fix src :: string
  assume "src \<noteq> []"
  then show "(tl src, src) \<in> measure length"
    by (cases src) simp_all
next
  fix src :: string and x :: nat
  assume "src \<noteq> []" "x = runeSize src" "x = 1"
  then show "(drop 1 src, src) \<in> measure length"
    by (cases src) simp_all
next
  fix src :: string and x :: nat
  assume "src \<noteq> []" "x = runeSize src"
  then show "(drop x src, src) \<in> measure length"
    using runeSize_pos [of src] by (cases src) simp_all
next
  fix src :: string and x :: nat
  assume "src \<noteq> []" "x = runeSize src"
  then show "(drop x src, src) \<in> measure length"
    using runeSize_pos [of src] by (cases src) simp_all
next
  fix src :: string and x :: nat
  assume "src \<noteq> []" "x = runeSize src"
  then show "(drop x src, src) \<in> measure length"
    using runeSize_pos [of src] by (cases src) simp_all
qed

declare stringBody.simps [simp del]

definition marshalString :: "string \<Rightarrow> string" where
  "marshalString s = [CHR 0x22] @ stringBody s @ [CHR 0x22]"

section \<open>The canonicalizer (\<^verbatim>\<open>canonicalMarshal\<close>)\<close>

lemma size_lookup: "size (lookup x k) < Suc (size_list (size_prod (\<lambda>_. 0) size) x)"
proof (induction x)
  case Nil
  then show ?case by (simp add: lookup_def)
next
  case (Cons p x)
  then show ?case by (cases p) (auto simp: lookup_def split: option.splits)
qed

lemma size_nth: "i < length xs \<Longrightarrow> size (xs ! i) < Suc (size_list size xs)"
proof (induction xs arbitrary: i)
  case Nil
  then show ?case by simp
next
  case (Cons a xs)
  show ?case
  proof (cases i)
    case 0
    then show ?thesis by simp
  next
    case (Suc j)
    with Cons.prems have "j < length xs" by simp
    from Cons.IH [OF this] show ?thesis using Suc by simp
  qed
qed

text \<open>
  \<^verbatim>\<open>canonicalMarshal\<close> with its two loops. \<open>mapLoop x keys i b\<close> is the loop
  \<^verbatim>\<open>for i, k := range keys\<close> from index \<open>i\<close> on, with the builder holding \<open>b\<close>;
  \<open>sliceLoop x i b\<close> is \<^verbatim>\<open>for i := range x\<close>. The keys are those of the map in the order of
  \<^verbatim>\<open>range\<close>, sorted by \<^verbatim>\<open>sort.Strings\<close>. An error of a recursive call returns at once with
  that error and no bytes (\<^verbatim>\<open>return nil, err\<close>). In \<open>i < length keys - 1\<close> the subtraction is
  exact, since the test is reached only when \<open>i < length keys\<close>. The switch sends a string, a
  \<^verbatim>\<open>float64\<close>, a bool and \<^verbatim>\<open>nil\<close> to \<^verbatim>\<open>json.Marshal\<close>, and every other type to
  \<^verbatim>\<open>json.Marshal\<close> as well, in its \<^verbatim>\<open>default\<close> branch.
\<close>

function canonicalMarshal :: "jvalue \<Rightarrow> error + string"
  and mapLoop :: "(string \<times> jvalue) list \<Rightarrow> string list \<Rightarrow> nat \<Rightarrow> string \<Rightarrow> error + string"
  and sliceLoop :: "jvalue list \<Rightarrow> nat \<Rightarrow> string \<Rightarrow> error + string"
where
  "canonicalMarshal (VMap x) =
     (let keys = sort (map fst x)
      in case mapLoop x keys 0 ''{'' of
           Inl err \<Rightarrow> Inl err
         | Inr b \<Rightarrow> Inr (b @ ''}''))"
| "canonicalMarshal (VSlice x) =
     (case sliceLoop x 0 ''['' of
        Inl err \<Rightarrow> Inl err
      | Inr b \<Rightarrow> Inr (b @ '']''))"
| "canonicalMarshal (VString s) = Inr (marshalString s)"
| "canonicalMarshal (VFloat64 f) = marshalOpaque UnsupportedValue f"
| "canonicalMarshal (VBool t) = Inr (if t then ''true'' else ''false'')"
| "canonicalMarshal VNil = Inr ''null''"
| "canonicalMarshal (VNumber n) = marshalNumber n"
| "canonicalMarshal (VOther r) = marshalOpaque UnsupportedType r"
| "mapLoop x keys i b =
     (if i < length keys then
        (let k = keys ! i;
             kb = marshalString k
         in case canonicalMarshal (lookup x k) of
              Inl err \<Rightarrow> Inl err
            | Inr vb \<Rightarrow>
                mapLoop x keys (i + 1)
                  (b @ kb @ '':'' @ vb @ (if i < length keys - 1 then '','' else [])))
      else Inr b)"
| "sliceLoop x i b =
     (if i < length x then
        (case canonicalMarshal (x ! i) of
           Inl err \<Rightarrow> Inl err
         | Inr vb \<Rightarrow>
             sliceLoop x (i + 1) (b @ vb @ (if i < length x - 1 then '','' else [])))
      else Inr b)"
  by pat_completeness auto
termination
  apply (relation "measures
        [\<lambda>a. case a of Inl v \<Rightarrow> size v
                     | Inr (Inl (x, keys, i, b)) \<Rightarrow> size (VMap x)
                     | Inr (Inr (x, i, b)) \<Rightarrow> size (VSlice x),
         \<lambda>a. case a of Inl v \<Rightarrow> 1 | Inr _ \<Rightarrow> 0,
         \<lambda>a. case a of Inl v \<Rightarrow> 0
                     | Inr (Inl (x, keys, i, b)) \<Rightarrow> length keys - i
                     | Inr (Inr (x, i, b)) \<Rightarrow> length x - i]")
  subgoal by simp
  subgoal by simp
  subgoal by simp
  subgoal for x keys i b xa xb using size_lookup [of x xa] by simp
  subgoal by simp
  subgoal for x i b using size_nth [of i x] by simp
  subgoal by simp
  done

declare canonicalMarshal.simps [simp del] mapLoop.simps [simp del] sliceLoop.simps [simp del]

text \<open>
  The rendering the specification describes, for comparison with the loops: the items of
  a mapping or sequence, in the given order, with one comma between neighbours and nothing
  else; the first item that fails makes the whole fail.
\<close>

fun joinItems :: "(error + string) list \<Rightarrow> error + string" where
  "joinItems [] = Inr []"
| "joinItems [r] = r"
| "joinItems (r # rs) =
     (case r of
        Inl err \<Rightarrow> Inl err
      | Inr s \<Rightarrow> (case joinItems rs of Inl err \<Rightarrow> Inl err | Inr t \<Rightarrow> Inr (s @ '','' @ t)))"

definition wrap :: "string \<Rightarrow> error + string \<Rightarrow> string \<Rightarrow> error + string" where
  "wrap l r c = (case r of Inl err \<Rightarrow> Inl err | Inr t \<Rightarrow> Inr (l @ t @ c))"

definition mapItem :: "(string \<times> jvalue) list \<Rightarrow> string \<Rightarrow> error + string" where
  "mapItem x k =
     (case canonicalMarshal (lookup x k) of
        Inl err \<Rightarrow> Inl err
      | Inr vb \<Rightarrow> Inr (marshalString k @ '':'' @ vb))"

text \<open>
  Two values that are the same JSON value: the same keys with the same values in every
  mapping, whatever the order in which the entries are visited, and the same elements in
  the same order in every sequence.
\<close>

inductive sameValue :: "jvalue \<Rightarrow> jvalue \<Rightarrow> bool" where
  sameMap: "distinct (map fst xs) \<Longrightarrow> distinct (map fst ys)
     \<Longrightarrow> set (map fst xs) = set (map fst ys)
     \<Longrightarrow> (\<forall>k \<in> set (map fst xs). sameValue (lookup xs k) (lookup ys k))
     \<Longrightarrow> sameValue (VMap xs) (VMap ys)"
| sameSlice: "list_all2 sameValue xs ys \<Longrightarrow> sameValue (VSlice xs) (VSlice ys)"
| sameRefl: "sameValue v v"

text \<open>
  The types the comment on \<^verbatim>\<open>canonicalMarshal\<close> lists as accepted:
  \<^verbatim>\<open>map[string]interface{}\<close>, \<^verbatim>\<open>[]interface{}\<close>, string, \<^verbatim>\<open>float64\<close>, bool, \<^verbatim>\<open>nil\<close>.
\<close>

definition supportedType :: "jvalue \<Rightarrow> bool" where
  "supportedType v = (case v of VNumber n \<Rightarrow> False | VOther r \<Rightarrow> False | _ \<Rightarrow> True)"

text \<open>
  A value holds a leaf that \<^verbatim>\<open>json.Marshal\<close> rejects: a \<^verbatim>\<open>float64\<close> that is NaN or
  infinite, a \<^verbatim>\<open>json.Number\<close> whose literal is not empty and is not a JSON number, a value
  of another type that \<^verbatim>\<open>json.Marshal\<close> cannot encode, in the value itself, in an element
  of a sequence or under a key of a mapping. The empty \<^verbatim>\<open>json.Number\<close> is not rejected,
  although it is not a JSON number: \<^verbatim>\<open>json.Marshal\<close> prints it as \<open>0\<close>.
\<close>

inductive rejected :: "jvalue \<Rightarrow> bool" where
  rejFloat: "rejected (VFloat64 None)"
| rejOther: "rejected (VOther None)"
| rejNumber: "n \<noteq> [] \<Longrightarrow> \<not> isValidNumber n \<Longrightarrow> rejected (VNumber n)"
| rejSlice: "v \<in> set xs \<Longrightarrow> rejected v \<Longrightarrow> rejected (VSlice xs)"
| rejMap: "k \<in> set (map fst x) \<Longrightarrow> rejected (lookup x k) \<Longrightarrow> rejected (VMap x)"

section \<open>The search of the topic (\<^verbatim>\<open>main\<close>)\<close>

text \<open>
  Two functions of Go's library that the search calls are parameters of the model:
  \<^item> \<open>jsonUnmarshal\<close>: \<^verbatim>\<open>json.Unmarshal\<close> of a payload into a \<^verbatim>\<open>map[string]interface{}\<close>, the
    map when \<^verbatim>\<open>err == nil\<close> and \<open>None\<close> otherwise;
  \<^item> \<open>foldUnicode\<close>: what \<^verbatim>\<open>strings.EqualFold\<close> answers from the first position on at which
    one of the two strings has a byte of \<open>0x80\<close> or more (its comparison of runes under
    Unicode simple case folding).
\<close>

record golib =
  jsonUnmarshal :: "bytes \<Rightarrow> (string \<times> jvalue) list option"
  foldUnicode :: "string \<Rightarrow> string \<Rightarrow> bool"

text \<open>
  \<^verbatim>\<open>strings.EqualFold\<close>: byte by byte while both bytes are ASCII, equal bytes or an uppercase
  letter and its lowercase letter; equal lengths at the end.
\<close>

fun EqualFold :: "(string \<Rightarrow> string \<Rightarrow> bool) \<Rightarrow> string \<Rightarrow> string \<Rightarrow> bool" where
  "EqualFold uni [] t = (t = [])"
| "EqualFold uni (sr # s) [] = False"
| "EqualFold uni (sr # s) (tr # t) =
     (if \<not> (sr < CHR 0x80 \<and> tr < CHR 0x80) then uni (sr # s) (tr # t)
      else if tr = sr then EqualFold uni s t
      else (let lo = min sr tr; hi = max sr tr
            in if CHR ''A'' \<le> lo \<and> lo \<le> CHR ''Z'' \<and> (of_char hi :: nat) = of_char lo + 32
               then EqualFold uni s t else False))"

text \<open>A message of the topic; the consensus time is kept as a number.\<close>

record TopicMessage =
  Contents :: bytes
  SequenceNumber :: "64 word"
  ConsensusTimestamp :: int

text \<open>
  What the program prints: the two match reports with the sequence number and the
  consensus time, \<^verbatim>\<open>Subscription error\<close> and \<^verbatim>\<open>Subscribe failed\<close> on standard error, and
  \<^verbatim>\<open>No matching message found within the time window\<close>.
\<close>

datatype report =
    MatchJSON "64 word" int
  | MatchRaw "64 word" int
  | SubscriptionError
  | SubscribeFailed
  | NoMatch

text \<open>
  The state the callbacks share with \<^verbatim>\<open>main\<close>: the variable \<^verbatim>\<open>found\<close>, whether
  \<^verbatim>\<open>cancel()\<close> has been called, whether the deadline of the context has passed, and the
  lines printed so far. \<^verbatim>\<open>ctx.Err() != nil\<close> holds once the context is cancelled or expired.
\<close>

record search_state =
  found :: bool
  cancelled :: bool
  expired :: bool
  printed :: "report list"


definition matchedJSON :: "TopicMessage \<Rightarrow> search_state \<Rightarrow> search_state" where
  "matchedJSON msg st =
     st\<lparr>printed := printed st @ [MatchJSON (SequenceNumber msg) (ConsensusTimestamp msg)],
        found := True, cancelled := True\<rparr>"

definition matchedRaw :: "TopicMessage \<Rightarrow> search_state \<Rightarrow> search_state" where
  "matchedRaw msg st =
     st\<lparr>printed := printed st @ [MatchRaw (SequenceNumber msg) (ConsensusTimestamp msg)],
        found := True, cancelled := True\<rparr>"

text \<open>The fallback of the message callback: the payload's bytes in hexadecimal against the hash.\<close>

definition rawCheck :: "golib \<Rightarrow> string \<Rightarrow> TopicMessage \<Rightarrow> search_state \<Rightarrow> search_state" where
  "rawCheck lib hex msg st =
     (if EqualFold (foldUnicode lib) (hexOf (Contents msg)) hex then matchedRaw msg st else st)"

text \<open>
  The message callback. \<^verbatim>\<open>obj["recordHashHex"].(string)\<close> succeeds only on a string stored
  under that key of the decoded map.
\<close>

definition onMessage :: "golib \<Rightarrow> string \<Rightarrow> TopicMessage \<Rightarrow> search_state \<Rightarrow> search_state" where
  "onMessage lib hex msg st =
     (case jsonUnmarshal lib (Contents msg) of
        Some obj \<Rightarrow>
          (case lookup obj ''recordHashHex'' of
             VString v \<Rightarrow>
               if EqualFold (foldUnicode lib) v hex then matchedJSON msg st
               else rawCheck lib hex msg st
           | _ \<Rightarrow> rawCheck lib hex msg st)
      | None \<Rightarrow> rawCheck lib hex msg st)"




definition initState :: search_state where
  "initState = \<lparr>found = False, cancelled = False, expired = False, printed = []\<rparr>"


text \<open>The two encodings of the specification, as conditions on a payload.\<close>

definition structuredMatch :: "golib \<Rightarrow> string \<Rightarrow> bytes \<Rightarrow> bool" where
  "structuredMatch lib hex c =
     (\<exists>obj v. jsonUnmarshal lib c = Some obj \<and> lookup obj ''recordHashHex'' = VString v
        \<and> EqualFold (foldUnicode lib) v hex)"

definition rawMatch :: "golib \<Rightarrow> string \<Rightarrow> bytes \<Rightarrow> bool" where
  "rawMatch lib hex c = EqualFold (foldUnicode lib) (hexOf c) hex"





section \<open>Sample data\<close>

text \<open>
  A record with a nested sequence of mappings, and the same record with the entries of every
  mapping visited in another order.
\<close>

definition sampleRecord :: jvalue where
  "sampleRecord = VMap
     [(''income'', VNumber ''1234.5''),
      (''hh_id'', VString ''ZA-0001''),
      (''members'', VSlice [VMap [(''name'', VString ''Jane''), (''age'', VNumber ''29'')],
                           VMap [(''age'', VNumber ''7'')]])]"

definition sampleRecordPermuted :: jvalue where
  "sampleRecordPermuted = VMap
     [(''members'', VSlice [VMap [(''age'', VNumber ''29''), (''name'', VString ''Jane'')],
                           VMap [(''age'', VNumber ''7'')]]),
      (''hh_id'', VString ''ZA-0001''),
      (''income'', VNumber ''1234.5'')]"

text \<open>
  A record hash in hexadecimal, in lowercase and in uppercase, its 32 bytes, and four
  payloads with what \<^verbatim>\<open>json.Unmarshal\<close> decodes them to; it fails on the 32 raw bytes.
\<close>

definition sampleHex :: string where
  "sampleHex = ''4a8b3d4e9f8b1c9a7e2d19c3c8f7b6a5e4d3c2b1a0987654321fedcba9876543''"

definition sampleHexUpper :: string where
  "sampleHexUpper = ''4A8B3D4E9F8B1C9A7E2D19C3C8F7B6A5E4D3C2B1A0987654321FEDCBA9876543''"

definition sampleDigest :: bytes where
  "sampleDigest = [0x4a, 0x8b, 0x3d, 0x4e, 0x9f, 0x8b, 0x1c, 0x9a, 0x7e, 0x2d, 0x19, 0xc3,
     0xc8, 0xf7, 0xb6, 0xa5, 0xe4, 0xd3, 0xc2, 0xb1, 0xa0, 0x98, 0x76, 0x54, 0x32, 0x1f,
     0xed, 0xcb, 0xa9, 0x87, 0x65, 0x43]"

definition payloadField :: bytes where
  \<open>payloadField = bytesOf
     ''{"recordHashHex":"4A8B3D4E9F8B1C9A7E2D19C3C8F7B6A5E4D3C2B1A0987654321FEDCBA9876543"}''\<close>

definition payloadOtherName :: bytes where
  \<open>payloadOtherName = bytesOf
     ''{"hash":"4a8b3d4e9f8b1c9a7e2d19c3c8f7b6a5e4d3c2b1a0987654321fedcba9876543"}''\<close>

definition payloadNested :: bytes where
  \<open>payloadNested = bytesOf
     ''{"data":{"recordHashHex":"4a8b3d4e9f8b1c9a7e2d19c3c8f7b6a5e4d3c2b1a0987654321fedcba9876543"}}''\<close>

definition payloadNonString :: bytes where
  \<open>payloadNonString = bytesOf
     ''{"recordHashHex":["4a8b3d4e9f8b1c9a7e2d19c3c8f7b6a5e4d3c2b1a0987654321fedcba9876543"]}''\<close>

definition sampleUnmarshal :: "bytes \<Rightarrow> (string \<times> jvalue) list option" where
  "sampleUnmarshal c =
     (if c = payloadField then Some [(''recordHashHex'', VString sampleHexUpper)]
      else if c = payloadOtherName then Some [(''hash'', VString sampleHex)]
      else if c = payloadNested then
        Some [(''data'', VMap [(''recordHashHex'', VString sampleHex)])]
      else if c = payloadNonString then
        Some [(''recordHashHex'', VSlice [VString sampleHex])]
      else None)"

definition noUnicode :: "string \<Rightarrow> string \<Rightarrow> bool" where
  "noUnicode s t = False"

definition sampleLib :: golib where
  "sampleLib = \<lparr>jsonUnmarshal = sampleUnmarshal, foldUnicode = noUnicode\<rparr>"

definition sampleMessage :: "bytes \<Rightarrow> TopicMessage" where
  "sampleMessage c = \<lparr>Contents = c, SequenceNumber = 42, ConsensusTimestamp = 0\<rparr>"


section \<open>Properties of the hash and of the hexadecimal text\<close>

lemma length_put32: "length (put32 w) = 4"
  by (simp add: put32_def)

lemma length_sha_out: "length (sha_out s) = 32"
  by (simp add: sha_out_def length_put32 split: prod.splits)

lemma length_Sum256: "length (Sum256 m) = 32"
  by (simp add: Sum256_def Let_def length_sha_out)

lemma length_sha256Bytes: "length (sha256Bytes b) = 32"
  by (simp add: sha256Bytes_def length_Sum256)

lemma length_hexOf: "length (hexOf bs) = 2 * length bs"
  by (induction bs) (simp_all add: hexOf_def hexByte_def)

lemma nibble_low_bound: "unat ((b :: byte) AND 0x0F) < 16"
proof -
  have "(0x0F :: byte) = mask 4"
    by (simp add: mask_eq_exp_minus_1)
  then have "unat (b AND 0x0F) = take_bit 4 (unat b)"
    by (simp only: take_bit_eq_mask [symmetric] unsigned_take_bit_eq)
  also have "\<dots> < 2 ^ 4"
    by (rule take_bit_nat_less_exp)
  finally show ?thesis by simp
qed

lemma nibble_high_bound: "unat (drop_bit 4 (b :: byte)) < 16"
proof -
  have "unat b < 256"
    using unsigned_less [of b, where ?'a = nat] by simp
  then have "unat b div 16 < 16" by arith
  then show ?thesis by (simp add: drop_bit_eq_div unat_div)
qed

lemma hexdigits_nth_lower: "n < 16 \<Longrightarrow> isLowerHex (hexdigits ! n)"
proof -
  assume "n < 16"
  moreover have "list_all isLowerHex hexdigits"
    by (simp add: hexdigits_def isLowerHex_def)
  moreover have "length hexdigits = 16"
    by (simp add: hexdigits_def)
  ultimately show ?thesis
    by (simp add: list_all_length)
qed

lemma hexByte_lower: "list_all isLowerHex (hexByte b)"
  by (simp add: hexByte_def hexdigits_nth_lower nibble_low_bound nibble_high_bound)

lemma hexOf_lower: "list_all isLowerHex (hexOf bs)"
  by (induction bs) (simp_all add: hexOf_def hexByte_lower)

section \<open>Properties of the Merkle aggregation\<close>

lemma levels_short: "length level \<le> 1 \<Longrightarrow> levels level = level"
  by (subst levels.simps) simp

lemma levels_nonempty: "level \<noteq> [] \<Longrightarrow> length (levels level) = 1"
proof (induction level rule: levels.induct)
  case (1 level)
  show ?case
  proof (cases "length level > 1")
    case True
    then have "nextLevel level 0 [] \<noteq> []"
      using length_nextLevel [of level 0 "[]"] by auto
    with True "1.IH" have "length (levels (nextLevel level 0 [])) = 1"
      by simp
    with True show ?thesis by (subst levels.simps) simp
  next
    case False
    with "1.prems" have "length level = 1"
      by (cases level) auto
    then show ?thesis by (simp add: levels_short)
  qed
qed

lemma nextLevel_pairUp: "nextLevel level i nxt = nxt @ pairUp (drop i level)"
proof (induction level i nxt rule: nextLevel.induct)
  case (1 level i nxt)
  show ?case
  proof (cases "i < length level")
    case False
    then show ?thesis by (subst nextLevel.simps) simp
  next
    case True
    show ?thesis
    proof (cases "i + 1 < length level")
      case True
      then have d: "drop i level = level ! i # level ! (i + 1) # drop (i + 2) level"
        by (metis Cons_nth_drop_Suc Suc_eq_plus1 add_2_eq_Suc' add_lessD1)
      have "nextLevel level i nxt
          = nextLevel level (i + 2) (nxt @ [sha256Bytes (level ! i @ level ! (i + 1))])"
        using True by (subst nextLevel.simps) (simp add: Let_def)
      also have "\<dots> = (nxt @ [sha256Bytes (level ! i @ level ! (i + 1))])
                          @ pairUp (drop (i + 2) level)"
        using True "1.IH" by (simp add: Let_def)
      finally show ?thesis by (simp add: d)
    next
      case False
      with True have d: "drop i level = [level ! i]"
        by (simp add: Cons_nth_drop_Suc [symmetric])
      have "nextLevel level i nxt
          = nextLevel level (i + 2) (nxt @ [sha256Bytes (level ! i @ level ! i)])"
        using True False by (subst nextLevel.simps) (simp add: Let_def)
      also have "\<dots> = (nxt @ [sha256Bytes (level ! i @ level ! i)])
                          @ pairUp (drop (i + 2) level)"
        using True False "1.IH" by (simp add: Let_def)
      finally show ?thesis using True False by (simp add: d)
    qed
  qed
qed

lemma levels_step: "length level > 1 \<Longrightarrow> levels level = levels (pairUp level)"
  by (subst levels.simps) (simp add: nextLevel_pairUp)

lemma levels_three:
  "levels [x, y, z] = [sha256Bytes (sha256Bytes (x @ y) @ sha256Bytes (z @ z))]"
  by (simp add: levels_step levels_short)

lemma list_of_length_three: "length xs = 3 \<Longrightarrow> \<exists>x y z. xs = [x, y, z]"
  by (auto simp: numeral_3_eq_3 length_Suc_conv)

lemma sort_cong_mset:
  fixes xs ys :: "'a::linorder list"
  assumes "mset xs = mset ys"
  shows "sort xs = sort ys"
proof -
  have "mset (sort ys) = mset xs" using assms by simp
  moreover have "sorted (sort ys)" by simp
  ultimately show ?thesis by (rule properties_for_sort)
qed

text \<open>
  C1. For 32-byte digests \<open>d\<close> and \<open>r\<close>, the record hash is SHA-256 of the 64 raw bytes
  \<open>d || r\<close>, and the text shown for it is the hexadecimal rendering of that digest: 64
  characters, each a digit or a lowercase letter \<open>a\<close> to \<open>f\<close>.
\<close>

theorem recordHash_is_sha256_of_concatenation:
  assumes "length d = 32" and "length r = 32"
  shows "recordHash d r = Sum256 (d @ r)
       \<and> length (d @ r) = 64
       \<and> recordHashHex d r = hexOf (Sum256 (d @ r))
       \<and> length (recordHashHex d r) = 64
       \<and> list_all isLowerHex (recordHashHex d r)"
  using assms
  by (simp add: recordHash_def recordHashHex_def sha256Bytes_def length_hexOf
      length_Sum256 hexOf_lower)

theorem recordHash_is_sha256_of_concatenation_witness:
  "length (replicate 32 (0 :: byte)) = 32
   \<and> recordHash (replicate 32 0) (replicate 32 0) = Sum256 (replicate 32 0 @ replicate 32 0)
   \<and> length (recordHashHex (replicate 32 0) (replicate 32 0)) = 64"
proof -
  have h: "length (replicate 32 (0 :: byte)) = 32"
    by simp
  from recordHash_is_sha256_of_concatenation [OF h h] show ?thesis
    using h by blast
qed

text \<open>
  C3. Two lists holding the same digests, each as often as the other, in any order, have the
  same Merkle root.
\<close>

theorem merkleRoot_permutation_invariant:
  assumes "mset xs = mset ys"
  shows "merkleRoot xs = merkleRoot ys"
proof -
  have "sort xs = sort ys"
    using assms by (rule sort_cong_mset)
  moreover have "length xs = length ys"
    using assms by (rule mset_eq_length)
  ultimately show ?thesis
    by (simp add: merkleRoot_def)
qed

theorem merkleRoot_permutation_invariant_witness:
  "mset [[1 :: byte, 2], [0, 7]] = mset [[0, 7], [1 :: byte, 2]]
   \<and> merkleRoot [[1, 2], [0, 7]] = merkleRoot [[0, 7], [1, 2]]"
proof -
  have h: "mset [[1 :: byte, 2], [0, 7]] = mset [[0, 7], [1 :: byte, 2]]"
    by simp
  show ?thesis
    using h merkleRoot_permutation_invariant [OF h] by simp
qed

text \<open>
  C4, as stated: the root of a single digest \<open>d\<close> would be the hash of \<open>d || d\<close>. The loop
  \<^verbatim>\<open>for len(level) > 1\<close> does not run on one digest, so the root is \<open>d\<close> itself; for 32
  zero bytes that is not the hash of 64 zero bytes.
\<close>

theorem merkleRoot_single_counterexample:
  "merkleRoot [replicate 32 0] \<noteq> sha256Bytes (replicate 32 0 @ replicate 32 0)"
proof -
  have "Sum256 (replicate 32 0 @ replicate 32 0) \<noteq> replicate 32 0"
    by code_simp
  then show ?thesis
    by (simp add: merkleRoot_def levels_short sha256Bytes_def)
qed

text \<open>
  C4, amended: the root of a single digest is that digest, unhashed. The last digest of a
  level is paired with itself only when the level holds an odd number of digests greater
  than one: three digests, \<open>s\<close> in sorted order, give the hash of
  \<open>hash (s0 || s1) || hash (s2 || s2)\<close>.
\<close>

theorem merkleRoot_single_is_identity:
  "merkleRoot [d] = d
   \<and> merkleRoot [a, b, c] =
       (let s = sort [a, b, c]
        in sha256Bytes (sha256Bytes (s ! 0 @ s ! 1) @ sha256Bytes (s ! 2 @ s ! 2)))"
proof
  show "merkleRoot [d] = d"
    by (simp add: merkleRoot_def levels_short)
next
  have "length (sort [a, b, c]) = 3" by simp
  then obtain x y z where s: "sort [a, b, c] = [x, y, z]"
    using list_of_length_three by blast
  show "merkleRoot [a, b, c] =
       (let s = sort [a, b, c]
        in sha256Bytes (sha256Bytes (s ! 0 @ s ! 1) @ sha256Bytes (s ! 2 @ s ! 2)))"
    unfolding merkleRoot_def Let_def s by (simp add: levels_three)
qed

section \<open>Properties of the canonicalizer\<close>

lemma joinItems_Inl: "joinItems (Inl e # rs) = Inl e"
  by (cases rs) simp_all

lemma joinItems_Inr:
  "joinItems (Inr s # rs) =
     (if rs = [] then Inr s
      else case joinItems rs of Inl err \<Rightarrow> Inl err | Inr t \<Rightarrow> Inr (s @ '','' @ t))"
  by (cases rs) simp_all

text \<open>The loop over the sorted keys writes the items that remain, joined by commas.\<close>

lemma mapLoop_join:
  "i \<le> length keys \<Longrightarrow>
   mapLoop x keys i b =
     (case joinItems (map (mapItem x) (drop i keys)) of
        Inl err \<Rightarrow> Inl err
      | Inr t \<Rightarrow> Inr (b @ t))"
proof (induction "length keys - i" arbitrary: i b)
  case 0
  then have "i = length keys" by simp
  then show ?case by (subst mapLoop.simps) simp
next
  case (Suc n)
  then have lt: "i < length keys" by simp
  then have d: "drop i keys = keys ! i # drop (Suc i) keys"
    by (simp add: Cons_nth_drop_Suc)
  show ?case
  proof (cases "canonicalMarshal (lookup x (keys ! i))")
    case (Inl e)
    then show ?thesis
      using lt by (subst mapLoop.simps) (simp add: d mapItem_def joinItems_Inl Let_def)
  next
    case (Inr vb)
    have n: "n = length keys - (i + 1)" using Suc.hyps by simp
    have le: "i + 1 \<le> length keys" using lt by simp
    show ?thesis
      using lt Inr Suc.hyps(1) [OF n le]
      by (subst mapLoop.simps)
         (auto simp: d mapItem_def joinItems_Inr Let_def split: sum.splits)
  qed
qed

lemma sliceLoop_join:
  "i \<le> length x \<Longrightarrow>
   sliceLoop x i b =
     (case joinItems (map canonicalMarshal (drop i x)) of
        Inl err \<Rightarrow> Inl err
      | Inr t \<Rightarrow> Inr (b @ t))"
proof (induction "length x - i" arbitrary: i b)
  case 0
  then have "i = length x" by simp
  then show ?case by (subst sliceLoop.simps) simp
next
  case (Suc n)
  then have lt: "i < length x" by simp
  then have d: "drop i x = x ! i # drop (Suc i) x"
    by (simp add: Cons_nth_drop_Suc)
  show ?case
  proof (cases "canonicalMarshal (x ! i)")
    case (Inl e)
    then show ?thesis
      using lt by (subst sliceLoop.simps) (simp add: d joinItems_Inl)
  next
    case (Inr vb)
    have n: "n = length x - (i + 1)" using Suc.hyps by simp
    have le: "i + 1 \<le> length x" using lt by simp
    show ?thesis
      using lt Inr Suc.hyps(1) [OF n le]
      by (subst sliceLoop.simps)
         (auto simp: d joinItems_Inr split: sum.splits)
  qed
qed

lemma canonicalMarshal_VMap:
  "canonicalMarshal (VMap x) = wrap ''{'' (joinItems (map (mapItem x) (sort (map fst x)))) ''}''"
  by (simp add: canonicalMarshal.simps mapLoop_join wrap_def Let_def split: sum.splits)

lemma canonicalMarshal_VSlice:
  "canonicalMarshal (VSlice x) = wrap ''['' (joinItems (map canonicalMarshal x)) '']''"
  by (simp add: canonicalMarshal.simps sliceLoop_join wrap_def split: sum.splits)

lemma sort_keys_eq:
  fixes ks ks' :: "string list"
  assumes "distinct ks" "distinct ks'" "set ks = set ks'"
  shows "sort ks = sort ks'"
proof -
  have "mset ks = mset ks'"
    using assms by (simp add: set_eq_iff_mset_eq_distinct)
  then show ?thesis by (rule sort_cong_mset)
qed

lemma sameValue_canonicalMarshal:
  "sameValue X Y \<Longrightarrow> canonicalMarshal X = canonicalMarshal Y"
proof (induction rule: sameValue.induct)
  case (sameMap xs ys)
  have k: "sort (map fst xs) = sort (map fst ys)"
    using sameMap.hyps(1,2,3) by (rule sort_keys_eq)
  have m: "map (mapItem xs) (sort (map fst xs)) = map (mapItem ys) (sort (map fst xs))"
  proof (rule map_cong [OF refl])
    fix k assume "k \<in> set (sort (map fst xs))"
    then have "k \<in> set (map fst xs)" by simp
    with sameMap.IH have "canonicalMarshal (lookup xs k) = canonicalMarshal (lookup ys k)"
      by blast
    then show "mapItem xs k = mapItem ys k"
      by (simp add: mapItem_def)
  qed
  have "canonicalMarshal (VMap xs)
      = wrap ''{'' (joinItems (map (mapItem xs) (sort (map fst xs)))) ''}''"
    by (rule canonicalMarshal_VMap)
  also have "\<dots> = wrap ''{'' (joinItems (map (mapItem ys) (sort (map fst ys)))) ''}''"
    by (simp only: m) (simp only: k)
  also have "\<dots> = canonicalMarshal (VMap ys)"
    by (rule canonicalMarshal_VMap [symmetric])
  finally show ?case .
next
  case (sameSlice xs ys)
  then have "map canonicalMarshal xs = map canonicalMarshal ys"
    by (induction rule: list_all2_induct) simp_all
  then show ?case
    by (simp add: canonicalMarshal_VSlice)
next
  case (sameRefl v)
  show ?case by simp
qed

lemma isValidNumber_zero: "isValidNumber ''0''"
  by (simp add: isValidNumber_def isDigit_def skipDigits_def)

lemma joinItems_fails: "(\<exists>e. joinItems rs = Inl e) = (\<exists>r \<in> set rs. \<exists>e. r = Inl e)"
proof (induction rs)
  case Nil
  show ?case by simp
next
  case (Cons r rs)
  show ?case
  proof (cases r)
    case (Inl e)
    then show ?thesis by (simp add: joinItems_Inl)
  next
    case (Inr s)
    show ?thesis
    proof (cases "rs = []")
      case True
      with Inr show ?thesis by simp
    next
      case False
      have "(\<exists>e. joinItems (r # rs) = Inl e) = (\<exists>e. joinItems rs = Inl e)"
        using Inr False by (cases "joinItems rs") (simp_all add: joinItems_Inr)
      with Cons.IH Inr show ?thesis by simp
    qed
  qed
qed

lemma mapItem_fails:
  "(\<exists>e. mapItem x k = Inl e) = (\<exists>e. canonicalMarshal (lookup x k) = Inl e)"
  by (cases "canonicalMarshal (lookup x k)") (simp_all add: mapItem_def)

lemma wrap_fails: "(\<exists>e. wrap l r c = Inl e) = (\<exists>e. r = Inl e)"
  by (cases r) (simp_all add: wrap_def)

lemma lookup_in_set: "k \<in> set (map fst x) \<Longrightarrow> (k, lookup x k) \<in> set x"
proof -
  assume "k \<in> set (map fst x)"
  then have "map_of x k \<noteq> None"
    by (simp add: map_of_eq_None_iff)
  then obtain v where "map_of x k = Some v"
    by auto
  then show ?thesis
    by (simp add: lookup_def map_of_SomeD)
qed

text \<open>The canonicalizer fails exactly on the values that hold a leaf the encoder rejects.\<close>

lemma canonicalMarshal_fails_iff: "(\<exists>e. canonicalMarshal v = Inl e) = rejected v"
proof (induction v)
  case (VMap x)
  have "(\<exists>e. canonicalMarshal (VMap x) = Inl e)
      = (\<exists>r \<in> set (map (mapItem x) (sort (map fst x))). \<exists>e. r = Inl e)"
    by (simp only: canonicalMarshal_VMap wrap_fails joinItems_fails)
  also have "\<dots> = (\<exists>k \<in> set (map fst x). \<exists>e. mapItem x k = Inl e)"
    by simp
  also have "\<dots> = (\<exists>k \<in> set (map fst x). \<exists>e. canonicalMarshal (lookup x k) = Inl e)"
    by (simp only: mapItem_fails)
  also have "\<dots> = (\<exists>k \<in> set (map fst x). rejected (lookup x k))"
  proof (rule bex_cong [OF refl])
    fix k assume k: "k \<in> set (map fst x)"
    then have "(k, lookup x k) \<in> set x" by (rule lookup_in_set)
    then show "(\<exists>e. canonicalMarshal (lookup x k) = Inl e) = rejected (lookup x k)"
      using VMap.IH [of "(k, lookup x k)" "lookup x k"] by simp
  qed
  also have "\<dots> = rejected (VMap x)"
    by (auto simp: rejected.simps [of "VMap x"])
  finally show ?case .
next
  case (VSlice xs)
  have "(\<exists>e. canonicalMarshal (VSlice xs) = Inl e)
      = (\<exists>v \<in> set xs. \<exists>e. canonicalMarshal v = Inl e)"
    by (auto simp: canonicalMarshal_VSlice wrap_fails joinItems_fails)
  also have "\<dots> = (\<exists>v \<in> set xs. rejected v)"
    using VSlice.IH by blast
  also have "\<dots> = rejected (VSlice xs)"
    by (auto simp: rejected.simps [of "VSlice xs"])
  finally show ?case .
next
  case (VString s)
  show ?case by (auto simp: canonicalMarshal.simps elim: rejected.cases)
next
  case (VFloat64 f)
  show ?case
    by (cases f)
       (auto simp: canonicalMarshal.simps marshalOpaque_def intro: rejFloat
          elim: rejected.cases)
next
  case (VBool t)
  show ?case by (auto simp: canonicalMarshal.simps elim: rejected.cases)
next
  case VNil
  show ?case by (auto simp: canonicalMarshal.simps elim: rejected.cases)
next
  case (VNumber n)
  show ?case
    by (auto simp: canonicalMarshal.simps marshalNumber_def Let_def isValidNumber_zero
        intro: rejNumber elim: rejected.cases split: if_splits)
next
  case (VOther r)
  show ?case
    by (cases r)
       (auto simp: canonicalMarshal.simps marshalOpaque_def intro: rejOther
          elim: rejected.cases)
qed

lemma sameValue_members:
  "sameValue
     (VSlice [VMap [(''name'', VString ''Jane''), (''age'', VNumber ''29'')],
              VMap [(''age'', VNumber ''7'')]])
     (VSlice [VMap [(''age'', VNumber ''29''), (''name'', VString ''Jane'')],
              VMap [(''age'', VNumber ''7'')]])"
proof -
  have "sameValue (VMap [(''name'', VString ''Jane''), (''age'', VNumber ''29'')])
                  (VMap [(''age'', VNumber ''29''), (''name'', VString ''Jane'')])"
    by (rule sameMap) (auto simp: lookup_def intro: sameRefl)
  then show ?thesis
    by (intro sameSlice) (simp add: sameRefl)
qed

lemma sameValue_sample: "sameValue sampleRecord sampleRecordPermuted"
  unfolding sampleRecord_def sampleRecordPermuted_def
  by (rule sameMap) (auto simp: lookup_def intro: sameRefl sameValue_members)

text \<open>
  C2. Two values that are the same mapping, with the entries of every mapping visited in
  any order (the keys of a Go map being distinct), are rendered to the same bytes. At every
  level, also inside sequences, a mapping is rendered as its items in the byte-wise order
  of the keys, a sequence as its elements in their own order, and between the brackets
  there is nothing but the items and one comma between neighbours.
\<close>

theorem canonicalMarshal_key_order_invariant:
  "(sameValue X Y \<longrightarrow> canonicalMarshal X = canonicalMarshal Y)
   \<and> canonicalMarshal (VMap x)
       = wrap ''{'' (joinItems (map (mapItem x) (sort (map fst x)))) ''}''
   \<and> sorted (sort (map fst x))
   \<and> canonicalMarshal (VSlice xs) = wrap ''['' (joinItems (map canonicalMarshal xs)) '']''"
proof (intro conjI impI)
  assume "sameValue X Y"
  then show "canonicalMarshal X = canonicalMarshal Y"
    by (rule sameValue_canonicalMarshal)
next
  show "canonicalMarshal (VMap x)
       = wrap ''{'' (joinItems (map (mapItem x) (sort (map fst x)))) ''}''"
    by (rule canonicalMarshal_VMap)
next
  show "sorted (sort (map fst x))"
    by simp
next
  show "canonicalMarshal (VSlice xs) = wrap ''['' (joinItems (map canonicalMarshal xs)) '']''"
    by (rule canonicalMarshal_VSlice)
qed

theorem canonicalMarshal_key_order_invariant_witness:
  \<open>sameValue sampleRecord sampleRecordPermuted
   \<and> canonicalMarshal sampleRecord = canonicalMarshal sampleRecordPermuted
   \<and> canonicalMarshal sampleRecordPermuted
       = Inr ''{"hh_id":"ZA-0001","income":1234.5,"members":[{"age":29,"name":"Jane"},{"age":7}]}''\<close>
proof -
  have v: \<open>canonicalMarshal sampleRecordPermuted
       = Inr ''{"hh_id":"ZA-0001","income":1234.5,"members":[{"age":29,"name":"Jane"},{"age":7}]}''\<close>
    by code_simp
  from canonicalMarshal_key_order_invariant [of sampleRecord sampleRecordPermuted]
  have "canonicalMarshal sampleRecord = canonicalMarshal sampleRecordPermuted"
    using sameValue_sample by simp
  with v sameValue_sample show ?thesis
    by (intro conjI) assumption+
qed

text \<open>
  C5. The decoder of \<^verbatim>\<open>loadJSONFile\<close> keeps every number as its literal
  (\<^verbatim>\<open>UseNumber\<close>), and the canonicalizer prints a valid literal as it is: the files
  \<open>{"income":1234.500}\<close> and \<open>{"income":1234.5}\<close>, which hold the same number, are rendered
  to different bytes.
\<close>

theorem canonicalMarshal_keeps_number_literal:
  \<open>canonicalMarshal (VMap [(''income'', VNumber ''1234.500'')]) = Inr ''{"income":1234.500}''
   \<and> canonicalMarshal (VMap [(''income'', VNumber ''1234.5'')]) = Inr ''{"income":1234.5}''
   \<and> canonicalMarshal (VMap [(''income'', VNumber ''1234.500'')])
       \<noteq> canonicalMarshal (VMap [(''income'', VNumber ''1234.5'')])\<close>
  by code_simp

text \<open>
  C6, as stated: a value of a type outside the accepted ones would make the canonicalizer
  fail. A \<^verbatim>\<open>json.Number\<close> and a value of any other type that \<^verbatim>\<open>json.Marshal\<close> can encode
  (here one it prints as \<open>5\<close>) are not among the accepted types, and are rendered by the
  default encoding.
\<close>

theorem canonicalMarshal_default_encoding_counterexample:
  "\<not> supportedType (VNumber ''42'') \<and> canonicalMarshal (VNumber ''42'') = Inr ''42''
   \<and> \<not> supportedType (VOther (Some ''5'')) \<and> canonicalMarshal (VOther (Some ''5'')) = Inr ''5''"
  by code_simp

text \<open>
  C6, amended: the canonicalizer fails, with the error of \<^verbatim>\<open>json.Marshal\<close> and no bytes,
  exactly when the value holds a leaf that \<^verbatim>\<open>json.Marshal\<close> rejects, at any depth: a
  \<^verbatim>\<open>float64\<close> that is NaN or infinite, a \<^verbatim>\<open>json.Number\<close> whose literal is not empty and
  is not a JSON number, a value of another type that \<^verbatim>\<open>json.Marshal\<close> cannot encode. A
  value of a type outside the accepted ones is given to \<^verbatim>\<open>json.Marshal\<close>: its default
  encoding, or its error, is the result. For a \<^verbatim>\<open>json.Number\<close> that is the literal itself
  when it is a JSON number, and \<open>0\<close> when the literal is empty, which is no JSON number and
  no failure.
\<close>

theorem canonicalMarshal_fails_iff_rejected:
  "(\<exists>e. canonicalMarshal v = Inl e) = rejected v
   \<and> canonicalMarshal (VNumber n) = marshalNumber n
   \<and> canonicalMarshal (VOther r) = marshalOpaque UnsupportedType r
   \<and> (\<exists>e. canonicalMarshal (VNumber n) = Inl e) = (n \<noteq> [] \<and> \<not> isValidNumber n)
   \<and> (isValidNumber n \<longrightarrow> canonicalMarshal (VNumber n) = Inr n)
   \<and> \<not> isValidNumber [] \<and> canonicalMarshal (VNumber []) = Inr ''0''
   \<and> \<not> rejected (VNumber [])"
proof -
  have z: "canonicalMarshal (VNumber []) = Inr ''0''"
    by (simp add: canonicalMarshal.simps marshalNumber_def isValidNumber_zero)
  have e: "\<not> isValidNumber []"
    by (simp add: isValidNumber_def)
  have f: "(\<exists>e. canonicalMarshal (VNumber n) = Inl e) = (n \<noteq> [] \<and> \<not> isValidNumber n)"
    by (auto simp: canonicalMarshal.simps marshalNumber_def Let_def isValidNumber_zero)
  have g: "isValidNumber n \<longrightarrow> canonicalMarshal (VNumber n) = Inr n"
    using e by (auto simp: canonicalMarshal.simps marshalNumber_def Let_def)
  have "\<not> (\<exists>e. canonicalMarshal (VNumber []) = Inl e)"
    using z by simp
  then have r: "\<not> rejected (VNumber [])"
    using canonicalMarshal_fails_iff [of "VNumber []"] by simp
  have 1: "(\<exists>e. canonicalMarshal v = Inl e) = rejected v"
    by (rule canonicalMarshal_fails_iff)
  have 2: "canonicalMarshal (VNumber n) = marshalNumber n"
    by (simp add: canonicalMarshal.simps)
  have 3: "canonicalMarshal (VOther r) = marshalOpaque UnsupportedType r"
    by (simp add: canonicalMarshal.simps)
  from 1 2 3 f g e z r show ?thesis
    by (intro conjI) assumption+
qed

theorem canonicalMarshal_fails_iff_rejected_witness:
  "rejected (VSlice [VBool True, VMap [(''x'', VFloat64 None)]])
   \<and> canonicalMarshal (VSlice [VBool True, VMap [(''x'', VFloat64 None)]])
       = Inl UnsupportedValue
   \<and> (\<exists>e. canonicalMarshal (VSlice [VBool True, VMap [(''x'', VFloat64 None)]]) = Inl e)
   \<and> canonicalMarshal (VNumber ''1e'') = Inl InvalidNumberLiteral
   \<and> isValidNumber ''1234.500''
   \<and> canonicalMarshal (VNumber ''1234.500'') = Inr ''1234.500''
   \<and> canonicalMarshal (VNumber []) = Inr ''0''"
proof -
  have a: "canonicalMarshal (VSlice [VBool True, VMap [(''x'', VFloat64 None)]])
       = Inl UnsupportedValue"
    by code_simp
  have b: "canonicalMarshal (VNumber ''1e'') = Inl InvalidNumberLiteral"
    by code_simp
  have v: "isValidNumber ''1234.500''"
    by code_simp
  from a have e: "\<exists>e. canonicalMarshal (VSlice [VBool True, VMap [(''x'', VFloat64 None)]]) = Inl e"
    by simp
  with canonicalMarshal_fails_iff_rejected
         [of "VSlice [VBool True, VMap [(''x'', VFloat64 None)]]"] a
  have r: "rejected (VSlice [VBool True, VMap [(''x'', VFloat64 None)]])"
    by simp
  from canonicalMarshal_fails_iff_rejected [of VNil "''1234.500''" None]
  have "isValidNumber ''1234.500'' \<longrightarrow> canonicalMarshal (VNumber ''1234.500'') = Inr ''1234.500''"
    by (elim conjE)
  with v have l: "canonicalMarshal (VNumber ''1234.500'') = Inr ''1234.500''"
    by (rule rev_mp)
  from canonicalMarshal_fails_iff_rejected [of VNil "[]" None]
  have z: "canonicalMarshal (VNumber []) = Inr ''0''"
    by (elim conjE)
  from r a e b v l z show ?thesis
    by (intro conjI) assumption+
qed

section \<open>Properties of the search\<close>

lemma onMessage_structured:
  "structuredMatch lib hex (Contents msg) \<Longrightarrow> onMessage lib hex msg st = matchedJSON msg st"
  by (auto simp: structuredMatch_def onMessage_def)

lemma onMessage_not_structured:
  "\<not> structuredMatch lib hex (Contents msg)
   \<Longrightarrow> onMessage lib hex msg st = rawCheck lib hex msg st"
  by (auto simp: structuredMatch_def onMessage_def split: option.splits jvalue.splits)

lemma matchedJSON_not_raw: "matchedJSON msg st \<noteq> matchedRaw msg' st'"
proof -
  have "last (printed (matchedJSON msg st)) \<noteq> last (printed (matchedRaw msg' st'))"
    by (simp add: matchedJSON_def matchedRaw_def)
  then show ?thesis by auto
qed

lemma matchedJSON_changes: "matchedJSON msg st \<noteq> st"
proof -
  have "length (printed (matchedJSON msg st)) \<noteq> length (printed st)"
    by (simp add: matchedJSON_def)
  then show ?thesis by auto
qed

lemma sample_upper_fold: "EqualFold noUnicode sampleHexUpper sampleHex"
  by (simp add: sampleHexUpper_def sampleHex_def)

lemma sample_digest_hex: "hexOf sampleDigest = sampleHex"
  by (simp add: sampleDigest_def sampleHex_def hexOf_def hexByte_def hexdigits_def)

lemma sample_fold_refl: "EqualFold noUnicode sampleHex sampleHex"
  by (simp add: sampleHex_def)

lemma sample_digest_no_json: "sampleUnmarshal sampleDigest = None"
  by (simp add: sampleUnmarshal_def sampleDigest_def payloadField_def payloadOtherName_def
      payloadNested_def payloadNonString_def bytesOf_def)

lemma sample_payloads_differ:
  "payloadOtherName \<noteq> payloadField" "payloadNested \<noteq> payloadField"
  "payloadNested \<noteq> payloadOtherName" "payloadNonString \<noteq> payloadField"
  "payloadNonString \<noteq> payloadOtherName" "payloadNonString \<noteq> payloadNested"
  by (simp_all add: payloadField_def payloadOtherName_def
      payloadNested_def payloadNonString_def bytesOf_def)

lemma sample_no_raw:
  "\<not> EqualFold noUnicode (hexOf payloadOtherName) sampleHex"
  "\<not> EqualFold noUnicode (hexOf payloadNested) sampleHex"
  "\<not> EqualFold noUnicode (hexOf payloadNonString) sampleHex"
  by (simp_all add: payloadOtherName_def payloadNested_def payloadNonString_def bytesOf_def
      sampleHex_def hexOf_def hexByte_def hexdigits_def)

lemma sample_structured: "structuredMatch sampleLib sampleHex payloadField"
  by (simp add: structuredMatch_def sampleLib_def sampleUnmarshal_def lookup_def
      sample_upper_fold)

text \<open>
  C7. The message callback sets \<^verbatim>\<open>found\<close> exactly when the payload matches under one of
  the two encodings: it decodes as a mapping whose field \<open>recordHashHex\<close> is a string equal
  to the hash text under \<^verbatim>\<open>strings.EqualFold\<close>, or its bytes in hexadecimal are equal to
  the hash text under \<^verbatim>\<open>strings.EqualFold\<close>. A payload that does not decode goes to the
  check of the raw bytes, and a message that matches under neither encoding leaves the state
  as it was.
\<close>

theorem onMessage_found_iff_match:
  "found (onMessage lib hex msg st)
     = (found st \<or> structuredMatch lib hex (Contents msg) \<or> rawMatch lib hex (Contents msg))
   \<and> (jsonUnmarshal lib (Contents msg) = None \<longrightarrow>
        onMessage lib hex msg st
          = (if rawMatch lib hex (Contents msg) then matchedRaw msg st else st))
   \<and> (\<not> structuredMatch lib hex (Contents msg) \<and> \<not> rawMatch lib hex (Contents msg) \<longrightarrow>
        onMessage lib hex msg st = st)"
proof (cases "structuredMatch lib hex (Contents msg)")
  case True
  then have "jsonUnmarshal lib (Contents msg) \<noteq> None"
    by (auto simp: structuredMatch_def)
  with True show ?thesis
    by (auto simp: onMessage_structured matchedJSON_def)
next
  case False
  then show ?thesis
    by (auto simp: onMessage_not_structured rawCheck_def rawMatch_def matchedRaw_def)
qed

theorem onMessage_found_iff_match_witness:
  "structuredMatch sampleLib sampleHex payloadField
   \<and> found (onMessage sampleLib sampleHex (sampleMessage payloadField) initState)
   \<and> jsonUnmarshal sampleLib sampleDigest = None
   \<and> rawMatch sampleLib sampleHex sampleDigest
   \<and> onMessage sampleLib sampleHex (sampleMessage sampleDigest) initState
       = matchedRaw (sampleMessage sampleDigest) initState
   \<and> found (onMessage sampleLib sampleHex (sampleMessage sampleDigest) initState)
   \<and> onMessage sampleLib sampleHex (sampleMessage payloadOtherName) initState = initState"
proof -
  have n: "jsonUnmarshal sampleLib sampleDigest = None"
    by (simp add: sampleLib_def sample_digest_no_json)
  have r: "rawMatch sampleLib sampleHex sampleDigest"
    by (simp add: rawMatch_def sampleLib_def sample_digest_hex sample_fold_refl)
  have o: "\<not> structuredMatch sampleLib sampleHex payloadOtherName"
    by (simp add: structuredMatch_def sampleLib_def sampleUnmarshal_def lookup_def
        sample_payloads_differ)
  have p: "\<not> rawMatch sampleLib sampleHex payloadOtherName"
    by (simp add: rawMatch_def sampleLib_def sample_no_raw)
  from onMessage_found_iff_match
         [of sampleLib sampleHex "sampleMessage payloadField" initState]
  have 1: "found (onMessage sampleLib sampleHex (sampleMessage payloadField) initState)"
    using sample_structured by (simp add: sampleMessage_def)
  from onMessage_found_iff_match
         [of sampleLib sampleHex "sampleMessage sampleDigest" initState]
  have 2: "onMessage sampleLib sampleHex (sampleMessage sampleDigest) initState
             = matchedRaw (sampleMessage sampleDigest) initState"
    and 3: "found (onMessage sampleLib sampleHex (sampleMessage sampleDigest) initState)"
    using n r by (simp_all add: sampleMessage_def matchedRaw_def)
  from onMessage_found_iff_match
         [of sampleLib sampleHex "sampleMessage payloadOtherName" initState]
  have 4: "onMessage sampleLib sampleHex (sampleMessage payloadOtherName) initState = initState"
    using o p by (simp add: sampleMessage_def)
  from sample_structured 1 n r 2 3 4 show ?thesis
    by (intro conjI) assumption+
qed

text \<open>
  C10. The callback reports a match in a JSON message exactly when the payload decodes as a
  mapping that has, at its top level and under the key \<open>recordHashHex\<close> itself, a string
  equal to the hash text under \<^verbatim>\<open>strings.EqualFold\<close>. When the decoded mapping has no string
  under that key (the text is under another key, inside a nested mapping, or the value is
  not a string), the outcome is that of the check of the raw bytes alone.
\<close>

theorem onMessage_structured_only_top_level_string:
  "(onMessage lib hex msg st = matchedJSON msg st)
     = (\<exists>obj v. jsonUnmarshal lib (Contents msg) = Some obj
          \<and> lookup obj ''recordHashHex'' = VString v
          \<and> EqualFold (foldUnicode lib) v hex)
   \<and> (jsonUnmarshal lib (Contents msg) = Some obj'
        \<and> (\<forall>v. lookup obj' ''recordHashHex'' \<noteq> VString v) \<longrightarrow>
        onMessage lib hex msg st = rawCheck lib hex msg st)"
proof
  show "(onMessage lib hex msg st = matchedJSON msg st)
     = (\<exists>obj v. jsonUnmarshal lib (Contents msg) = Some obj
          \<and> lookup obj ''recordHashHex'' = VString v
          \<and> EqualFold (foldUnicode lib) v hex)"
  proof (cases "structuredMatch lib hex (Contents msg)")
    case True
    then show ?thesis
      using onMessage_structured [OF True, of st] by (simp add: structuredMatch_def)
  next
    case False
    have "rawCheck lib hex msg st \<noteq> matchedJSON msg st"
      using matchedJSON_not_raw [of msg st msg st] matchedJSON_changes [of msg st]
      by (auto simp: rawCheck_def)
    with False show ?thesis
      using onMessage_not_structured [OF False, of st] by (simp add: structuredMatch_def)
  qed
next
  show "jsonUnmarshal lib (Contents msg) = Some obj'
        \<and> (\<forall>v. lookup obj' ''recordHashHex'' \<noteq> VString v) \<longrightarrow>
        onMessage lib hex msg st = rawCheck lib hex msg st"
    by (auto simp: onMessage_def split: jvalue.splits)
qed

theorem onMessage_structured_only_top_level_string_witness:
  "onMessage sampleLib sampleHex (sampleMessage payloadField) initState
     = matchedJSON (sampleMessage payloadField) initState
   \<and> onMessage sampleLib sampleHex (sampleMessage payloadOtherName) initState = initState
   \<and> onMessage sampleLib sampleHex (sampleMessage payloadNested) initState = initState
   \<and> onMessage sampleLib sampleHex (sampleMessage payloadNonString) initState = initState"
proof -
  have f: "jsonUnmarshal sampleLib payloadField = Some [(''recordHashHex'', VString sampleHexUpper)]"
    by (simp add: sampleLib_def sampleUnmarshal_def)
  have 1: "onMessage sampleLib sampleHex (sampleMessage payloadField) initState
     = matchedJSON (sampleMessage payloadField) initState"
    using onMessage_structured_only_top_level_string
            [of sampleLib sampleHex "sampleMessage payloadField" initState] f sample_upper_fold
    by (simp add: sampleMessage_def sampleLib_def lookup_def)
  have a: "jsonUnmarshal sampleLib payloadOtherName = Some [(''hash'', VString sampleHex)]"
    by (simp add: sampleLib_def sampleUnmarshal_def sample_payloads_differ)
  have 2: "onMessage sampleLib sampleHex (sampleMessage payloadOtherName) initState = initState"
    using onMessage_structured_only_top_level_string
            [of sampleLib sampleHex "sampleMessage payloadOtherName" initState
                "[(''hash'', VString sampleHex)]"] a sample_no_raw
    by (simp add: sampleMessage_def lookup_def rawCheck_def sampleLib_def)
  have b: "jsonUnmarshal sampleLib payloadNested
             = Some [(''data'', VMap [(''recordHashHex'', VString sampleHex)])]"
    by (simp add: sampleLib_def sampleUnmarshal_def sample_payloads_differ)
  have 3: "onMessage sampleLib sampleHex (sampleMessage payloadNested) initState = initState"
    using onMessage_structured_only_top_level_string
            [of sampleLib sampleHex "sampleMessage payloadNested" initState
                "[(''data'', VMap [(''recordHashHex'', VString sampleHex)])]"] b sample_no_raw
    by (simp add: sampleMessage_def lookup_def rawCheck_def sampleLib_def)
  have c: "jsonUnmarshal sampleLib payloadNonString
             = Some [(''recordHashHex'', VSlice [VString sampleHex])]"
    by (simp add: sampleLib_def sampleUnmarshal_def sample_payloads_differ)
  have 4: "onMessage sampleLib sampleHex (sampleMessage payloadNonString) initState = initState"
    using onMessage_structured_only_top_level_string
            [of sampleLib sampleHex "sampleMessage payloadNonString" initState
                "[(''recordHashHex'', VSlice [VString sampleHex])]"] c sample_no_raw
    by (simp add: sampleMessage_def lookup_def rawCheck_def sampleLib_def)
  from 1 2 3 4 show ?thesis
    by (intro conjI) assumption+
qed























end
